theory Spec2Isabelle
  imports Main
begin

section \<open>JavaScript strings and values\<close>

text \<open>
  A JavaScript string is a sequence of UTF-16 code units; a code unit is modelled by its
  number. The regular expressions of \<^verbatim>\<open>recipe.js\<close> carry the flags \<^verbatim>\<open>g\<close> and \<^verbatim>\<open>i\<close> but
  not \<^verbatim>\<open>u\<close>, so they work on code units, \<^verbatim>\<open>\w\<close> is the ASCII class
  \<^verbatim>\<open>[A-Za-z0-9_]\<close>, and a letter of a pattern matches exactly its two ASCII cases.
  \<^verbatim>\<open>\s\<close> (and \<^verbatim>\<open>trim\<close>) is white space and line terminators of the language
  definition.
\<close>

type_synonym jschar = nat
type_synonym jsstring = "jschar list"

definition js :: "string \<Rightarrow> jsstring" where
  "js s = map of_char s"

definition LT :: jschar where "LT = 60"
definition GT :: jschar where "GT = 62"
definition SLASH :: jschar where "SLASH = 47"
definition EQUALS :: jschar where "EQUALS = 61"
definition COLON :: jschar where "COLON = 58"
definition COMMA :: jschar where "COMMA = 44"
definition DOT :: jschar where "DOT = 46"
definition DQUOTE :: jschar where "DQUOTE = 34"
definition SQUOTE :: jschar where "SQUOTE = 39"

definition is_space :: "jschar \<Rightarrow> bool" where
  "is_space c =
     (c \<in> set [9, 10, 11, 12, 13, 32, 160, 5760, 8232, 8233, 8239, 8287, 12288, 65279]
      \<or> (8192 \<le> c \<and> c \<le> 8202))"

definition is_digit :: "jschar \<Rightarrow> bool" where
  "is_digit c = (48 \<le> c \<and> c \<le> 57)"

definition is_word :: "jschar \<Rightarrow> bool" where
  "is_word c =
     ((65 \<le> c \<and> c \<le> 90) \<or> (97 \<le> c \<and> c \<le> 122) \<or> is_digit c \<or> c = 95)"

definition to_upper :: "jschar \<Rightarrow> jschar" where
  "to_upper c = (if 97 \<le> c \<and> c \<le> 122 then c - 32 else c)"

text \<open>
  \<^verbatim>\<open>toLowerCase\<close> is applied to URL host names only, which the URL standard serialises
  in ASCII; on ASCII it maps \<^verbatim>\<open>A-Z\<close> to \<^verbatim>\<open>a-z\<close>.
\<close>

definition toLowerCase :: "jsstring \<Rightarrow> jsstring" where
  "toLowerCase s = map (\<lambda>c. if 65 \<le> c \<and> c \<le> 90 then c + 32 else c) s"

definition trim :: "jsstring \<Rightarrow> jsstring" where
  "trim s = rev (dropWhile is_space (rev (dropWhile is_space s)))"

text \<open>
  The values \<^verbatim>\<open>JSON.parse\<close> produces, and \<^verbatim>\<open>undefined\<close>. An object is its list of
  properties. A number is read by this program only for being zero or not.
\<close>

datatype jsval =
    JUndefined
  | JNull
  | JBool bool
  | JNum int
  | JStr jsstring
  | JArr "jsval list"
  | JObj "(jsstring \<times> jsval) list"

datatype error = TypeError

fun truthy :: "jsval \<Rightarrow> bool" where
  "truthy JUndefined = False"
| "truthy JNull = False"
| "truthy (JBool b) = b"
| "truthy (JNum n) = (n \<noteq> 0)"
| "truthy (JStr s) = (s \<noteq> [])"
| "truthy (JArr xs) = True"
| "truthy (JObj kvs) = True"

text \<open>
  Reading a property: \<^verbatim>\<open>null\<close> and \<^verbatim>\<open>undefined\<close> raise a TypeError; an object gives
  the property or \<^verbatim>\<open>undefined\<close>; the names the program reads (\<^verbatim>\<open>@type\<close>, \<^verbatim>\<open>@graph\<close>,
  \<^verbatim>\<open>url\<close>, \<^verbatim>\<open>text\<close>, \<^verbatim>\<open>name\<close>, ...) are no properties of a string, a number, a
  boolean or an array.
\<close>

fun get_prop :: "jsval \<Rightarrow> jsstring \<Rightarrow> error + jsval" where
  "get_prop JUndefined k = Inl TypeError"
| "get_prop JNull k = Inl TypeError"
| "get_prop (JObj kvs) k = Inr (case map_of kvs k of Some v \<Rightarrow> v | None \<Rightarrow> JUndefined)"
| "get_prop v k = Inr JUndefined"

fun isArray :: "jsval \<Rightarrow> bool" where
  "isArray (JArr xs) = True"
| "isArray v = False"

fun elements :: "jsval \<Rightarrow> jsval list" where
  "elements (JArr xs) = xs"
| "elements v = []"

fun isString :: "jsval \<Rightarrow> bool" where
  "isString (JStr s) = True"
| "isString v = False"

section \<open>Recipe cache\<close>

text \<open>
  \<^verbatim>\<open>recipeCache\<close> is a \<^verbatim>\<open>Map\<close>: its keys are kept in insertion order, \<^verbatim>\<open>set\<close> on a
  present key replaces the value in place, \<^verbatim>\<open>keys().next().value\<close> is the first key.
  \<^verbatim>\<open>Date.now()\<close> is the argument \<open>now\<close>.
\<close>

record 'd cache_entry =
  data :: 'd
  timestamp :: int

type_synonym ('k, 'd) recipeCache = "('k \<times> 'd cache_entry) list"

definition CACHE_TTL_MS :: int where
  "CACHE_TTL_MS = 60 * 60 * 1000"

definition CACHE_MAX_ENTRIES :: nat where
  "CACHE_MAX_ENTRIES = 200"

fun Map_set :: "'k \<Rightarrow> 'v \<Rightarrow> ('k \<times> 'v) list \<Rightarrow> ('k \<times> 'v) list" where
  "Map_set k v [] = [(k, v)]"
| "Map_set k v ((a, b) # ps) = (if a = k then (k, v) # ps else (a, b) # Map_set k v ps)"

definition Map_delete :: "'k \<Rightarrow> ('k \<times> 'v) list \<Rightarrow> ('k \<times> 'v) list" where
  "Map_delete k ps = filter (\<lambda>p. fst p \<noteq> k) ps"

definition getCached :: "int \<Rightarrow> 'k \<Rightarrow> ('k, 'd) recipeCache \<Rightarrow> 'd option \<times> ('k, 'd) recipeCache" where
  "getCached now url c =
     (case map_of c url of
        None \<Rightarrow> (None, c)
      | Some entry \<Rightarrow>
          if CACHE_TTL_MS < now - timestamp entry then (None, Map_delete url c)
          else (Some (data entry), c))"

definition setCache :: "int \<Rightarrow> 'k \<Rightarrow> 'd \<Rightarrow> ('k, 'd) recipeCache \<Rightarrow> ('k, 'd) recipeCache" where
  "setCache now url d c =
     (let c1 = (if CACHE_MAX_ENTRIES \<le> length c
                then (case c of [] \<Rightarrow> c | (oldest, _) # _ \<Rightarrow> Map_delete oldest c)
                else c)
      in Map_set url \<lparr>data = d, timestamp = now\<rparr> c1)"

text \<open>A sequence of \<^verbatim>\<open>setCache\<close> calls, each with its URL, its data and its time.\<close>

fun setCache_all :: "('k \<times> 'd \<times> int) list \<Rightarrow> ('k, 'd) recipeCache \<Rightarrow> ('k, 'd) recipeCache" where
  "setCache_all [] c = c"
| "setCache_all ((url, d, now) # ins) c = setCache_all ins (setCache now url d c)"

section \<open>Rate limiting\<close>

record rate_entry =
  timestamps :: "int list"

type_synonym rateLimitMap = "jsstring \<rightharpoonup> rate_entry"

definition RATE_LIMIT_WINDOW_MS :: int where
  "RATE_LIMIT_WINDOW_MS = 60 * 1000"

definition RATE_LIMIT_MAX :: nat where
  "RATE_LIMIT_MAX = 10"

definition checkRateLimit :: "int \<Rightarrow> jsstring \<Rightarrow> rateLimitMap \<Rightarrow> bool \<times> rateLimitMap" where
  "checkRateLimit now ip m =
     (case m ip of
        None \<Rightarrow> (True, m(ip \<mapsto> \<lparr>timestamps = [now]\<rparr>))
      | Some entry \<Rightarrow>
          (let ts = filter (\<lambda>t. now - t < RATE_LIMIT_WINDOW_MS) (timestamps entry)
           in if RATE_LIMIT_MAX \<le> length ts
              then (False, m(ip \<mapsto> entry\<lparr>timestamps := ts\<rparr>))
              else (True, m(ip \<mapsto> entry\<lparr>timestamps := ts @ [now]\<rparr>))))"

text \<open>
  The callback of \<^verbatim>\<open>setInterval\<close>, run every five minutes: it drops the timestamps
  that are out of the window and the clients that have none left.
\<close>

definition sweep :: "int \<Rightarrow> rateLimitMap \<Rightarrow> rateLimitMap" where
  "sweep now m =
     (\<lambda>ip. case m ip of
             None \<Rightarrow> None
           | Some entry \<Rightarrow>
               (let ts = filter (\<lambda>t. now - t < RATE_LIMIT_WINDOW_MS) (timestamps entry)
                in if ts = [] then None else Some (entry\<lparr>timestamps := ts\<rparr>)))"

text \<open>Successive calls for one client, at the given times.\<close>

fun checkRateLimit_calls :: "jsstring \<Rightarrow> int list \<Rightarrow> rateLimitMap \<Rightarrow> bool list \<times> rateLimitMap" where
  "checkRateLimit_calls ip [] m = ([], m)"
| "checkRateLimit_calls ip (t # ts) m =
     (case checkRateLimit t ip m of
        (r, m') \<Rightarrow> (case checkRateLimit_calls ip ts m' of (rs, m'') \<Rightarrow> (r # rs, m'')))"

section \<open>Domain allowlist and SSRF protection\<close>

text \<open>
  \<^verbatim>\<open>new URL(x)\<close> is the platform's parser, not code of this program: it is the
  parameter \<open>newURL\<close>, which gives the fields the program reads, or \<open>None\<close> where
  the constructor throws.
\<close>

record url =
  protocol :: jsstring
  username :: jsstring
  password :: jsstring
  hostname :: jsstring

definition ALLOWED_DOMAINS :: "jsstring list" where
  "ALLOWED_DOMAINS = map js
     [''recipetineats.com'', ''budgetbytes.com'', ''allrecipes.com'', ''foodnetwork.com'',
      ''simplyrecipes.com'', ''bonappetit.com'', ''seriouseats.com'', ''tasty.co'',
      ''delish.com'', ''epicurious.com'', ''cookieandkate.com'', ''minimalistbaker.com'',
      ''halfbakedharvest.com'', ''damndelicious.net'', ''pinchofyum.com'',
      ''smittenkitchen.com'', ''loveandlemons.com'', ''thepioneerwoman.com'', ''food52.com'',
      ''eatingwell.com'', ''skinnytaste.com'', ''hellofresh.com'', ''bbcgoodfood.com'',
      ''jamieoliver.com'', ''nigella.com'', ''themodernproper.com'']"

text \<open>\<^verbatim>\<open>.replace(/^www\./, '')\<close>\<close>

definition strip_www :: "jsstring \<Rightarrow> jsstring" where
  "strip_www h = (if take 4 h = js ''www.'' then drop 4 h else h)"

definition isDomainAllowed :: "(jsval \<Rightarrow> url option) \<Rightarrow> jsval \<Rightarrow> bool" where
  "isDomainAllowed newURL urlString =
     (case newURL urlString of
        None \<Rightarrow> False
      | Some parsed \<Rightarrow> strip_www (toLowerCase (hostname parsed)) \<in> set ALLOWED_DOMAINS)"

text \<open>
  \<^verbatim>\<open>/^(\d{1,3})\.(\d{1,3})\.(\d{1,3})\.(\d{1,3})$/\<close>: a group is a run of one to three
  digits, which the next character of the pattern (a dot, or the end) must follow; the
  groups are read with \<^verbatim>\<open>Number\<close>.
\<close>

definition digits_val :: "jsstring \<Rightarrow> nat" where
  "digits_val ds = foldl (\<lambda>n d. 10 * n + (d - 48)) 0 ds"

definition take_octet :: "jsstring \<Rightarrow> (nat \<times> jsstring) option" where
  "take_octet s =
     (let ds = takeWhile is_digit s
      in if 1 \<le> length ds \<and> length ds \<le> 3 then Some (digits_val ds, dropWhile is_digit s)
         else None)"

definition take_octet_dot :: "jsstring \<Rightarrow> (nat \<times> jsstring) option" where
  "take_octet_dot s =
     (case take_octet s of
        None \<Rightarrow> None
      | Some (n, r) \<Rightarrow> (case r of [] \<Rightarrow> None | c # r' \<Rightarrow> if c = DOT then Some (n, r') else None))"

definition ipv4Match :: "jsstring \<Rightarrow> (nat \<times> nat \<times> nat \<times> nat) option" where
  "ipv4Match s =
     (case take_octet_dot s of
        None \<Rightarrow> None
      | Some (a, r1) \<Rightarrow>
          (case take_octet_dot r1 of
             None \<Rightarrow> None
           | Some (b, r2) \<Rightarrow>
               (case take_octet_dot r2 of
                  None \<Rightarrow> None
                | Some (c, r3) \<Rightarrow>
                    (case take_octet r3 of
                       None \<Rightarrow> None
                     | Some (d, r4) \<Rightarrow> if r4 = [] then Some (a, b, c, d) else None))))"

definition isUrlSafe :: "(jsval \<Rightarrow> url option) \<Rightarrow> jsval \<Rightarrow> bool" where
  "isUrlSafe newURL urlString =
     (case newURL urlString of
        None \<Rightarrow> False
      | Some parsed \<Rightarrow>
          if protocol parsed \<noteq> js ''https:'' then False
          else if username parsed \<noteq> [] \<or> password parsed \<noteq> [] then False
          else
            (let host = toLowerCase (hostname parsed)
             in if host = js ''localhost'' \<or> host = js ''0.0.0.0'' \<or> host = js ''[::1]'' then False
                else if (case ipv4Match host of
                           None \<Rightarrow> False
                         | Some (a, b, c, d) \<Rightarrow>
                             a = 127 \<or> a = 10 \<or> (a = 172 \<and> 16 \<le> b \<and> b \<le> 31)
                             \<or> (a = 192 \<and> b = 168) \<or> (a = 169 \<and> b = 254) \<or> a = 0)
                then False
                else if host = js ''metadata.google.internal'' \<or> host = js ''metadata.google.com''
                then False
                else True))"

section \<open>HTML sanitization\<close>

text \<open>
  Each regular expression is a function from the text at a position to the match that
  the backtracking matcher finds there first, given as the replacement text and the rest
  of the input after the match. The functions follow the order in which the matcher
  tries. A greedy \<^verbatim>\<open>\s*\<close>, \<^verbatim>\<open>\s+\<close>, \<^verbatim>\<open>\w+\<close> or \<^verbatim>\<open>[^>]*\<close> takes its whole run,
  since what follows it in the pattern starts with a character outside its class. Of the
  alternatives of a group of names at most one matches, none being a prefix of another.
  The value of an event handler is tried as a quoted string first, and its last
  alternative \<^verbatim>\<open>[^\s>]*\<close>, which ends the pattern, takes its whole run. A lazy
  \<^verbatim>\<open>[\s\S]*?\<close> stops at the first closing tag.
\<close>

fun ci_prefix :: "jsstring \<Rightarrow> jsstring \<Rightarrow> jsstring option" where
  "ci_prefix [] s = Some s"
| "ci_prefix (p # ps) [] = None"
| "ci_prefix (p # ps) (c # cs) = (if to_upper p = to_upper c then ci_prefix ps cs else None)"

text \<open>A group of alternatives: the matched text and the rest.\<close>

fun first_alt :: "jsstring list \<Rightarrow> jsstring \<Rightarrow> (jsstring \<times> jsstring) option" where
  "first_alt [] s = None"
| "first_alt (p # ps) s =
     (case ci_prefix p s of
        Some rest \<Rightarrow> Some (take (length p) s, rest)
      | None \<Rightarrow> first_alt ps s)"

text \<open>A lazy \<^verbatim>\<open>[\s\S]*?\<close> before a literal: the text before its first occurrence, and the rest after it.\<close>

fun find_ci :: "jsstring \<Rightarrow> jsstring \<Rightarrow> (jsstring \<times> jsstring) option" where
  "find_ci pat [] = (case ci_prefix pat [] of Some r \<Rightarrow> Some ([], r) | None \<Rightarrow> None)"
| "find_ci pat (c # cs) =
     (case ci_prefix pat (c # cs) of
        Some r \<Rightarrow> Some ([], r)
      | None \<Rightarrow> (case find_ci pat cs of Some (before, r) \<Rightarrow> Some (c # before, r) | None \<Rightarrow> None))"

text \<open>\<^verbatim>\<open>\b\<close> after a word character.\<close>

definition at_word_end :: "jsstring \<Rightarrow> bool" where
  "at_word_end s = (case s of [] \<Rightarrow> True | c # _ \<Rightarrow> \<not> is_word c)"

text \<open>\<^verbatim>\<open>[^>]*>\<close>\<close>

definition after_gt :: "jsstring \<Rightarrow> jsstring option" where
  "after_gt s = (case dropWhile (\<lambda>c. c \<noteq> GT) s of [] \<Rightarrow> None | _ # r \<Rightarrow> Some r)"

definition DENYLIST_TAGS :: "jsstring list" where
  "DENYLIST_TAGS = map js [''script'', ''iframe'', ''object'', ''embed'', ''form'', ''link'',
                          ''style'', ''base'', ''meta'', ''svg'']"

text \<open>\<^verbatim>\<open>/<\s*\/?\s*(script|iframe|object|embed|form|link|style|base|meta|svg)\b[^>]*>/gi\<close>, replaced by the empty string.\<close>

definition match_denylisted_tag :: "jsstring \<Rightarrow> (jsstring \<times> jsstring) option" where
  "match_denylisted_tag s =
     (case s of
        [] \<Rightarrow> None
      | c # r \<Rightarrow>
          if c \<noteq> LT then None
          else
            (let r1 = dropWhile is_space r;
                 r2 = (case r1 of [] \<Rightarrow> r1 | d # t \<Rightarrow> if d = SLASH then t else r1);
                 r3 = dropWhile is_space r2
             in case first_alt DENYLIST_TAGS r3 of
                  None \<Rightarrow> None
                | Some (_, r4) \<Rightarrow>
                    if at_word_end r4
                    then (case after_gt r4 of None \<Rightarrow> None | Some r5 \<Rightarrow> Some ([], r5))
                    else None))"

text \<open>\<^verbatim>\<open>(?:"[^"]*"|'[^']*'|[^\s>]*)\<close>: the rest after the attribute value.\<close>

definition attr_value_end :: "jsstring \<Rightarrow> jsstring" where
  "attr_value_end r =
     (case r of
        [] \<Rightarrow> []
      | q # t \<Rightarrow>
          if q = DQUOTE \<and> DQUOTE \<in> set t then tl (dropWhile (\<lambda>c. c \<noteq> DQUOTE) t)
          else if q = SQUOTE \<and> SQUOTE \<in> set t then tl (dropWhile (\<lambda>c. c \<noteq> SQUOTE) t)
          else dropWhile (\<lambda>c. \<not> is_space c \<and> c \<noteq> GT) r)"

text \<open>\<^verbatim>\<open>/\s+on\w+\s*=\s*(?:"[^"]*"|'[^']*'|[^\s>]*)/gi\<close>, replaced by the empty string.\<close>

definition match_event_handler :: "jsstring \<Rightarrow> (jsstring \<times> jsstring) option" where
  "match_event_handler s =
     (case s of
        [] \<Rightarrow> None
      | c # r \<Rightarrow>
          if \<not> is_space c then None
          else
            (case ci_prefix (js ''on'') (dropWhile is_space r) of
               None \<Rightarrow> None
             | Some r2 \<Rightarrow>
                 (case r2 of
                    [] \<Rightarrow> None
                  | w # r3 \<Rightarrow>
                      if \<not> is_word w then None
                      else
                        (case dropWhile is_space (dropWhile is_word r3) of
                           [] \<Rightarrow> None
                         | e # r4 \<Rightarrow>
                             if e = EQUALS
                             then Some ([], attr_value_end (dropWhile is_space r4))
                             else None))))"

text \<open>
  \<^verbatim>\<open>/(href|src|action)\s*=\s*["']?\s*(javascript|data|vbscript)\s*:/gi\<close>, replaced by
  \<^verbatim>\<open>$1="\<close>: the attribute name as it was matched, an equals sign and a double quote.
\<close>

definition match_scheme_attr :: "jsstring \<Rightarrow> (jsstring \<times> jsstring) option" where
  "match_scheme_attr s =
     (case first_alt (map js [''href'', ''src'', ''action'']) s of
        None \<Rightarrow> None
      | Some (g1, r1) \<Rightarrow>
          (case dropWhile is_space r1 of
             [] \<Rightarrow> None
           | e # r2 \<Rightarrow>
               if e \<noteq> EQUALS then None
               else
                 (let r3 = dropWhile is_space r2;
                      r4 = (case r3 of [] \<Rightarrow> r3 | q # t \<Rightarrow> if q = DQUOTE \<or> q = SQUOTE then t else r3);
                      r5 = dropWhile is_space r4
                  in case first_alt (map js [''javascript'', ''data'', ''vbscript'']) r5 of
                       None \<Rightarrow> None
                     | Some (_, r6) \<Rightarrow>
                         (case dropWhile is_space r6 of
                            [] \<Rightarrow> None
                          | k # r7 \<Rightarrow> if k = COLON then Some (g1 @ [EQUALS, DQUOTE], r7) else None))))"

text \<open>\<^verbatim>\<open>/<script\b[^>]*>[\s\S]*?<\/script>/gi\<close>, replaced by the empty string.\<close>

definition match_script_block :: "jsstring \<Rightarrow> (jsstring \<times> jsstring) option" where
  "match_script_block s =
     (case ci_prefix (js ''<script'') s of
        None \<Rightarrow> None
      | Some r1 \<Rightarrow>
          if at_word_end r1
          then (case after_gt r1 of
                  None \<Rightarrow> None
                | Some r2 \<Rightarrow>
                    (case find_ci (js ''</script>'') r2 of
                       None \<Rightarrow> None
                     | Some (_, r3) \<Rightarrow> Some ([], r3)))
          else None)"

text \<open>
  \<^verbatim>\<open>str.replace(re, replacement)\<close> with a global pattern: the leftmost match from the
  current position is replaced and the search goes on after it. Every pattern above
  consumes at least one code unit.
\<close>

function replace_all :: "(jsstring \<Rightarrow> (jsstring \<times> jsstring) option) \<Rightarrow> jsstring \<Rightarrow> jsstring" where
  "replace_all m s =
     (case s of
        [] \<Rightarrow> []
      | c # cs \<Rightarrow>
          (case m s of
             None \<Rightarrow> c # replace_all m cs
           | Some (rep, rest) \<Rightarrow>
               if length rest < length s then rep @ replace_all m rest
               else c # replace_all m cs))"
  by pat_completeness auto
termination
  by (relation "measure (\<lambda>(m, s). length s)") auto

definition sanitize_string :: "jsstring \<Rightarrow> jsstring" where
  "sanitize_string str =
     replace_all match_script_block
       (replace_all match_scheme_attr
          (replace_all match_event_handler
             (replace_all match_denylisted_tag str)))"

fun sanitizeText :: "jsval \<Rightarrow> jsval" where
  "sanitizeText (JStr str) = JStr (sanitize_string str)"
| "sanitizeText v = v"

record recipe_result =
  name :: jsval
  description :: jsval
  ingredients :: "jsval list"
  instructions :: "jsval list"
  servings :: jsval
  prepTime :: jsval
  cookTime :: jsval
  image_field :: jsval

definition sanitizeRecipe :: "recipe_result \<Rightarrow> recipe_result" where
  "sanitizeRecipe recipe =
     recipe\<lparr>name := (if truthy (name recipe) then sanitizeText (name recipe) else name recipe),
            description := (if truthy (description recipe) then sanitizeText (description recipe)
                            else description recipe),
            instructions := map sanitizeText (instructions recipe),
            ingredients := map sanitizeText (ingredients recipe)\<rparr>"

section \<open>The handler, up to the cache lookup\<close>

record request =
  req_method :: jsstring
  x_forwarded_for :: "jsstring option"
  x_real_ip :: "jsstring option"
  remoteAddress :: "jsstring option"
  body :: jsval

text \<open>
  \<^verbatim>\<open>req.headers['x-forwarded-for']?.split(',')[0]?.trim() || req.headers['x-real-ip']
  || req.socket?.remoteAddress || 'unknown'\<close>; an absent header is \<open>None\<close>.
\<close>

definition or_string :: "jsstring option \<Rightarrow> jsstring \<Rightarrow> jsstring" where
  "or_string a b = (case a of None \<Rightarrow> b | Some s \<Rightarrow> if s \<noteq> [] then s else b)"

definition clientIp :: "request \<Rightarrow> jsstring" where
  "clientIp req =
     or_string (map_option (\<lambda>h. trim (takeWhile (\<lambda>c. c \<noteq> COMMA) h)) (x_forwarded_for req))
       (or_string (x_real_ip req)
          (or_string (remoteAddress req) (js ''unknown'')))"

text \<open>
  What the handler has done when it reaches the cache lookup or returns before it: a
  response with its status and error message (none for \<^verbatim>\<open>OPTIONS\<close>), an exception
  (\<^verbatim>\<open>const { url } = req.body\<close> stands outside the \<^verbatim>\<open>try\<close>), or the URL that goes
  on to the cache lookup and the fetch.
\<close>

datatype outcome =
    Responded nat jsstring
  | Thrown error
  | Proceed jsval

definition handler_validate ::
  "(jsval \<Rightarrow> url option) \<Rightarrow> int \<Rightarrow> request \<Rightarrow> rateLimitMap \<Rightarrow> outcome \<times> rateLimitMap" where
  "handler_validate newURL now req rl =
     (if req_method req = js ''OPTIONS'' then (Responded 200 [], rl)
      else if req_method req \<noteq> js ''POST'' then (Responded 405 (js ''Method not allowed''), rl)
      else
        (case checkRateLimit now (clientIp req) rl of
           (allowed, rl') \<Rightarrow>
             if \<not> allowed
             then (Responded 429 (js ''Too many requests. Please wait a minute before trying again.''), rl')
             else
               (case get_prop (body req) (js ''url'') of
                  Inl e \<Rightarrow> (Thrown e, rl')
                | Inr url \<Rightarrow>
                    if \<not> truthy url then (Responded 400 (js ''URL is required''), rl')
                    else if \<not> isUrlSafe newURL url
                    then (Responded 400 (js ''Invalid URL. Please use an https:// link.''), rl')
                    else if \<not> isDomainAllowed newURL url
                    then (Responded 400 (js ''This recipe site is not supported yet. Try a major recipe site like RecipeTin Eats, BBC Good Food, or Allrecipes.''), rl')
                    else (Proceed url, rl'))))"

section \<open>JSON-LD discovery and Recipe resolution\<close>

text \<open>
  \<^verbatim>\<open>/<script[^>]*type=["']application\/ld\+json["'][^>]*>([\s\S]*?)<\/script>/gi\<close>.
  Both runs of \<^verbatim>\<open>[^>]*\<close> end at the first \<^verbatim>\<open>>\<close> after \<^verbatim>\<open><script\<close>, so the type
  attribute stands somewhere before it, and the group is the text from there to the next
  closing tag, wherever the matcher places the attribute. The result is the group and
  the rest after the match.
\<close>

definition type_attr_here :: "jsstring \<Rightarrow> bool" where
  "type_attr_here s =
     (case ci_prefix (js ''type='') s of
        None \<Rightarrow> False
      | Some r1 \<Rightarrow>
          (case r1 of
             [] \<Rightarrow> False
           | q # r2 \<Rightarrow>
               (q = DQUOTE \<or> q = SQUOTE) \<and>
               (case ci_prefix (js ''application/ld+json'') r2 of
                  None \<Rightarrow> False
                | Some r3 \<Rightarrow> (case r3 of [] \<Rightarrow> False | q' # _ \<Rightarrow> q' = DQUOTE \<or> q' = SQUOTE))))"

fun has_type_attr :: "jsstring \<Rightarrow> bool" where
  "has_type_attr [] = False"
| "has_type_attr (c # cs) = (type_attr_here (c # cs) \<or> has_type_attr cs)"

definition match_jsonLd :: "jsstring \<Rightarrow> (jsstring \<times> jsstring) option" where
  "match_jsonLd s =
     (case ci_prefix (js ''<script'') s of
        None \<Rightarrow> None
      | Some r1 \<Rightarrow>
          if has_type_attr (takeWhile (\<lambda>c. c \<noteq> GT) r1)
          then (case after_gt r1 of None \<Rightarrow> None | Some r2 \<Rightarrow> find_ci (js ''</script>'') r2)
          else None)"

text \<open>
  The \<^verbatim>\<open>while ((match = jsonLdRegex.exec(html)) !== null)\<close> loop: the groups of the
  successive matches, each search starting where the last match ended.
\<close>

function jsonLdRegex_exec_all :: "jsstring \<Rightarrow> jsstring list" where
  "jsonLdRegex_exec_all s =
     (case s of
        [] \<Rightarrow> []
      | c # cs \<Rightarrow>
          (case match_jsonLd s of
             None \<Rightarrow> jsonLdRegex_exec_all cs
           | Some (g, rest) \<Rightarrow>
               if length rest < length s then g # jsonLdRegex_exec_all rest
               else jsonLdRegex_exec_all cs))"
  by pat_completeness auto
termination
  by (relation "measure length") auto

text \<open>
  \<^verbatim>\<open>JSON.parse\<close> is the platform's: the parameter \<open>JSON_parse\<close>, \<open>None\<close> where it
  throws. A block that does not parse is skipped.
\<close>

definition jsonLd_matches :: "(jsstring \<Rightarrow> jsval option) \<Rightarrow> jsstring \<Rightarrow> jsval list" where
  "jsonLd_matches JSON_parse html = List.map_filter JSON_parse (jsonLdRegex_exec_all html)"

text \<open>\<^verbatim>\<open>arr.find(item => item['@type'] === 'Recipe')\<close>\<close>

fun find_Recipe :: "jsval list \<Rightarrow> error + jsval" where
  "find_Recipe [] = Inr JUndefined"
| "find_Recipe (item # items) =
     (case get_prop item (js ''@type'') of
        Inl e \<Rightarrow> Inl e
      | Inr t \<Rightarrow> if t = JStr (js ''Recipe'') then Inr item else find_Recipe items)"

text \<open>
  The loop \<^verbatim>\<open>for (const data of matches)\<close> (\<open>datum\<close> here); the first argument is the variable
  \<^verbatim>\<open>recipe\<close>, which a \<^verbatim>\<open>find\<close> that finds nothing sets to \<^verbatim>\<open>undefined\<close>.
\<close>

fun find_recipe_loop :: "jsval \<Rightarrow> jsval list \<Rightarrow> error + jsval" where
  "find_recipe_loop recipe [] = Inr recipe"
| "find_recipe_loop recipe (datum # matches) =
     (case get_prop datum (js ''@type'') of
        Inl e \<Rightarrow> Inl e
      | Inr t \<Rightarrow>
          if t = JStr (js ''Recipe'') then Inr datum
          else
            (case (if isArray datum then find_Recipe (elements datum) else Inr recipe) of
               Inl e \<Rightarrow> Inl e
             | Inr recipe1 \<Rightarrow>
                 if isArray datum \<and> truthy recipe1 then Inr recipe1
                 else
                   (case get_prop datum (js ''@graph'') of
                      Inl e \<Rightarrow> Inl e
                    | Inr g \<Rightarrow>
                        if truthy g \<and> isArray g
                        then (case find_Recipe (elements g) of
                                Inl e \<Rightarrow> Inl e
                              | Inr recipe2 \<Rightarrow>
                                  if truthy recipe2 then Inr recipe2
                                  else find_recipe_loop recipe2 matches)
                        else find_recipe_loop recipe1 matches)))"

text \<open>
  \<^verbatim>\<open>let recipe = null\<close>, the loop, and \<^verbatim>\<open>if (!recipe)\<close>: the Recipe object, or \<open>None\<close>
  where the handler answers 404; an exception goes to the handler's \<^verbatim>\<open>catch\<close>.
\<close>

definition find_recipe :: "jsval list \<Rightarrow> error + jsval option" where
  "find_recipe matches =
     (case find_recipe_loop JNull matches of
        Inl e \<Rightarrow> Inl e
      | Inr recipe \<Rightarrow> Inr (if truthy recipe then Some recipe else None))"

text \<open>The same two steps in the second handler of the file (the one without validation).\<close>

definition jsonLd_matches_v2 :: "(jsstring \<Rightarrow> jsval option) \<Rightarrow> jsstring \<Rightarrow> jsval list" where
  "jsonLd_matches_v2 JSON_parse html = List.map_filter JSON_parse (jsonLdRegex_exec_all html)"

fun find_recipe_loop_v2 :: "jsval \<Rightarrow> jsval list \<Rightarrow> error + jsval" where
  "find_recipe_loop_v2 recipe [] = Inr recipe"
| "find_recipe_loop_v2 recipe (datum # matches) =
     (case get_prop datum (js ''@type'') of
        Inl e \<Rightarrow> Inl e
      | Inr t \<Rightarrow>
          if t = JStr (js ''Recipe'') then Inr datum
          else
            (case (if isArray datum then find_Recipe (elements datum) else Inr recipe) of
               Inl e \<Rightarrow> Inl e
             | Inr recipe1 \<Rightarrow>
                 if isArray datum \<and> truthy recipe1 then Inr recipe1
                 else
                   (case get_prop datum (js ''@graph'') of
                      Inl e \<Rightarrow> Inl e
                    | Inr g \<Rightarrow>
                        if truthy g \<and> isArray g
                        then (case find_Recipe (elements g) of
                                Inl e \<Rightarrow> Inl e
                              | Inr recipe2 \<Rightarrow>
                                  if truthy recipe2 then Inr recipe2
                                  else find_recipe_loop_v2 recipe2 matches)
                        else find_recipe_loop_v2 recipe1 matches)))"

definition find_recipe_v2 :: "jsval list \<Rightarrow> error + jsval option" where
  "find_recipe_v2 matches =
     (case find_recipe_loop_v2 JNull matches of
        Inl e \<Rightarrow> Inl e
      | Inr recipe \<Rightarrow> Inr (if truthy recipe then Some recipe else None))"

section \<open>Field extraction, image validation and the response\<close>

definition ebind :: "error + 'a \<Rightarrow> ('a \<Rightarrow> error + 'b) \<Rightarrow> error + 'b" where
  "ebind x f = (case x of Inl e \<Rightarrow> Inl e | Inr v \<Rightarrow> f v)"

text \<open>\<^verbatim>\<open>a || b\<close>\<close>

definition jsor :: "jsval \<Rightarrow> jsval \<Rightarrow> jsval" where
  "jsor a b = (if truthy a then a else b)"

text \<open>\<^verbatim>\<open>Array.prototype.map\<close> with a callback that may throw.\<close>

fun map_throwing :: "('a \<Rightarrow> error + 'b) \<Rightarrow> 'a list \<Rightarrow> error + 'b list" where
  "map_throwing f [] = Inr []"
| "map_throwing f (x # xs) =
     (case f x of
        Inl e \<Rightarrow> Inl e
      | Inr y \<Rightarrow> (case map_throwing f xs of Inl e \<Rightarrow> Inl e | Inr ys \<Rightarrow> Inr (y # ys)))"

text \<open>\<^verbatim>\<open>i => typeof i === 'string' ? i.trim() : ''\<close>\<close>

fun ingredient_text :: "jsval \<Rightarrow> jsval" where
  "ingredient_text (JStr i) = JStr (trim i)"
| "ingredient_text v = JStr []"

text \<open>
  \<^verbatim>\<open>(recipe.recipeIngredient || []).map(...)\<close>: a truthy value that is no array has no
  \<^verbatim>\<open>map\<close> to call.
\<close>

definition ingredients_of :: "jsval \<Rightarrow> error + jsval list" where
  "ingredients_of v =
     (if truthy v
      then (case v of JArr xs \<Rightarrow> Inr (map ingredient_text xs) | _ \<Rightarrow> Inl TypeError)
      else Inr [])"

fun step_text :: "jsval \<Rightarrow> error + jsval" where
  "step_text (JStr s) = Inr (JStr s)"
| "step_text step =
     (case get_prop step (js ''text'') of
        Inl e \<Rightarrow> Inl e
      | Inr t \<Rightarrow>
          if truthy t then Inr t
          else (case get_prop step (js ''name'') of
                  Inl e \<Rightarrow> Inl e
                | Inr n \<Rightarrow> if truthy n then Inr n else Inr (JStr [])))"

definition instructions_of :: "jsval \<Rightarrow> error + jsval list" where
  "instructions_of v =
     (if truthy v
      then (case v of
              JArr steps \<Rightarrow>
                (case map_throwing step_text steps of
                   Inl e \<Rightarrow> Inl e
                 | Inr ts \<Rightarrow> Inr (filter truthy ts))
            | JStr s \<Rightarrow> Inr [v]
            | _ \<Rightarrow> Inr [])
      else Inr [])"

text \<open>The block under \<^verbatim>\<open>// Get image\<close>; \<^verbatim>\<open>recipe.image[0]\<close> of an empty array is \<^verbatim>\<open>undefined\<close>.\<close>

definition image_of :: "jsval \<Rightarrow> error + jsval" where
  "image_of v =
     (if truthy v
      then (case v of
              JStr s \<Rightarrow> Inr v
            | JArr xs \<Rightarrow> Inr (case xs of [] \<Rightarrow> JUndefined | x # _ \<Rightarrow> x)
            | _ \<Rightarrow>
                (case get_prop v (js ''url'') of
                   Inl e \<Rightarrow> Inl e
                 | Inr u \<Rightarrow> Inr (if truthy u then u else JNull)))
      else Inr JNull)"

text \<open>The block under \<^verbatim>\<open>// Validate image URL\<close>.\<close>

definition validate_image :: "(jsval \<Rightarrow> url option) \<Rightarrow> jsval \<Rightarrow> jsval" where
  "validate_image newURL img =
     (if truthy img \<and> isString img
      then (case newURL img of
              None \<Rightarrow> JNull
            | Some imgUrl \<Rightarrow>
                if protocol imgUrl \<noteq> js ''http:'' \<and> protocol imgUrl \<noteq> js ''https:'' then JNull
                else img)
      else img)"

text \<open>The object \<^verbatim>\<open>result\<close> when \<^verbatim>\<open>sanitizeRecipe\<close> is called.\<close>

definition extract_fields :: "(jsval \<Rightarrow> url option) \<Rightarrow> jsval \<Rightarrow> error + recipe_result" where
  "extract_fields newURL recipe =
     ebind (get_prop recipe (js ''name'')) (\<lambda>n.
     ebind (get_prop recipe (js ''description'')) (\<lambda>d.
     ebind (get_prop recipe (js ''recipeIngredient'')) (\<lambda>ri.
     ebind (ingredients_of ri) (\<lambda>ings.
     ebind (get_prop recipe (js ''recipeYield'')) (\<lambda>y.
     ebind (get_prop recipe (js ''prepTime'')) (\<lambda>p.
     ebind (get_prop recipe (js ''cookTime'')) (\<lambda>c.
     ebind (get_prop recipe (js ''recipeInstructions'')) (\<lambda>ins.
     ebind (instructions_of ins) (\<lambda>steps.
     ebind (get_prop recipe (js ''image'')) (\<lambda>img.
     ebind (image_of img) (\<lambda>im.
       Inr \<lparr>name = jsor n (JStr (js ''Untitled Recipe'')),
            description = jsor d (JStr []),
            ingredients = ings,
            instructions = steps,
            servings = jsor y JNull,
            prepTime = jsor p JNull,
            cookTime = jsor c JNull,
            image_field = validate_image newURL im\<rparr>)))))))))))"

text \<open>The Recipe the handler caches and returns with status 200.\<close>

definition recipe_response :: "(jsval \<Rightarrow> url option) \<Rightarrow> jsval \<Rightarrow> error + recipe_result" where
  "recipe_response newURL recipe =
     (case extract_fields newURL recipe of
        Inl e \<Rightarrow> Inl e
      | Inr result \<Rightarrow> Inr (sanitizeRecipe result))"

text \<open>
  The handler from the fetched page on: the size limit, discovery, resolution,
  extraction and sanitization, inside \<^verbatim>\<open>try\<close>. A TypeError is neither a TimeoutError
  nor an AbortError, so the \<^verbatim>\<open>catch\<close> block answers it with status 500.
\<close>

datatype page_outcome =
    Failed nat jsstring
  | Fresh recipe_result

definition handler_page ::
  "(jsval \<Rightarrow> url option) \<Rightarrow> (jsstring \<Rightarrow> jsval option) \<Rightarrow> jsstring \<Rightarrow> page_outcome" where
  "handler_page newURL JSON_parse html =
     (if 2 * 1024 * 1024 < length html then Failed 502 (js ''Page too large to process'')
      else
        (case find_recipe (jsonLd_matches JSON_parse html) of
           Inl e \<Rightarrow> Failed 500 (js ''Failed to process recipe'')
         | Inr None \<Rightarrow> Failed 404 (js ''No recipe found on this page'')
         | Inr (Some recipe) \<Rightarrow>
             (case recipe_response newURL recipe of
                Inl e \<Rightarrow> Failed 500 (js ''Failed to process recipe'')
              | Inr result \<Rightarrow> Fresh result)))"

section \<open>The properties, as the specification words them\<close>

text \<open>A pattern has a match somewhere in a string.\<close>

fun occurs :: "(jsstring \<Rightarrow> (jsstring \<times> jsstring) option) \<Rightarrow> jsstring \<Rightarrow> bool" where
  "occurs m [] = False"
| "occurs m (c # cs) = (m (c # cs) \<noteq> None \<or> occurs m cs)"

text \<open>No tag of the denylist, event handler, dangerous scheme or script block is left.\<close>

definition markup_free :: "jsstring \<Rightarrow> bool" where
  "markup_free s =
     (\<not> occurs match_denylisted_tag s \<and> \<not> occurs match_event_handler s
      \<and> \<not> occurs match_scheme_attr s \<and> \<not> occurs match_script_block s)"

fun markup_free_val :: "jsval \<Rightarrow> bool" where
  "markup_free_val (JStr s) = markup_free s"
| "markup_free_val v = True"

definition sanitized_fields :: "recipe_result \<Rightarrow> jsval list" where
  "sanitized_fields r = name r # description r # ingredients r @ instructions r"

definition string_fields :: "recipe_result \<Rightarrow> jsval list" where
  "string_fields r = sanitized_fields r @ [servings r, prepTime r, cookTime r, image_field r]"

text \<open>Null, or a string that parses as a URL with scheme http or https.\<close>

definition http_url :: "(jsval \<Rightarrow> url option) \<Rightarrow> jsval \<Rightarrow> bool" where
  "http_url newURL v =
     (case newURL v of
        None \<Rightarrow> False
      | Some u \<Rightarrow> protocol u = js ''http:'' \<or> protocol u = js ''https:'')"

definition image_null_or_http_url :: "(jsval \<Rightarrow> url option) \<Rightarrow> jsval \<Rightarrow> bool" where
  "image_null_or_http_url newURL v = (v = JNull \<or> (isString v \<and> http_url newURL v))"

text \<open>A literal dotted quad: four runs of one to three digits with dots between them.\<close>

definition octet :: "jsstring \<Rightarrow> bool" where
  "octet ds = (1 \<le> length ds \<and> length ds \<le> 3 \<and> list_all is_digit ds)"

definition dotted_quad :: "jsstring \<Rightarrow> jsstring \<Rightarrow> jsstring \<Rightarrow> jsstring \<Rightarrow> jsstring" where
  "dotted_quad a b c d = a @ DOT # b @ DOT # c @ DOT # d"

definition private_range :: "nat \<Rightarrow> nat \<Rightarrow> bool" where
  "private_range a b =
     (a = 127 \<or> a = 10 \<or> (a = 172 \<and> 16 \<le> b \<and> b \<le> 31) \<or> (a = 192 \<and> b = 168)
      \<or> (a = 169 \<and> b = 254) \<or> a = 0)"







text \<open>
  The rate limiter has recorded this request: the check passed and the table is the one
  it left, with the time of the request as the client's last timestamp.
\<close>

definition slot_consumed :: "int \<Rightarrow> jsstring \<Rightarrow> rateLimitMap \<Rightarrow> rateLimitMap \<Rightarrow> bool" where
  "slot_consumed now ip rl rl' =
     (checkRateLimit now ip rl = (True, rl')
      \<and> (case rl' ip of
            None \<Rightarrow> False
          | Some e \<Rightarrow> timestamps e \<noteq> [] \<and> last (timestamps e) = now))"

text \<open>
  What the URL standard's parser gives on the URLs of the examples below; no other
  input is parsed here.
\<close>

definition https_host :: "string \<Rightarrow> url" where
  "https_host h = \<lparr>protocol = js ''https:'', username = [], password = [], hostname = js h\<rparr>"

definition example_newURL :: "jsval \<Rightarrow> url option" where
  "example_newURL v =
     (if v = JStr (js ''https://www.allrecipes.com/x'') then Some (https_host ''www.allrecipes.com'')
      else if v = JStr (js ''https://allrecipes.com/x'') then Some (https_host ''allrecipes.com'')
      else if v = JStr (js ''https://evil.allrecipes.com/x'') then Some (https_host ''evil.allrecipes.com'')
      else if v = JStr (js ''https://10.1.2.3/'') then Some (https_host ''10.1.2.3'')
      else if v = JStr (js ''https://example.org/tea.jpg'') then Some (https_host ''example.org'')
      else None)"

text \<open>
  A page with one JSON-LD block, and what \<^verbatim>\<open>JSON.parse\<close> gives on the block.
\<close>

definition markup_block :: jsstring where
  "markup_block = js ''{\"@type\":\"Recipe\",\"name\":\"<scr<script>ipt>\",\"recipeYield\":\"<script>\",\"image\":[{\"@type\":\"ImageObject\",\"url\":\"https://example.org/tea.jpg\"}]}''"

definition markup_page :: jsstring where
  "markup_page =
     js ''<html><head><script type=\"application/ld+json\">'' @ markup_block
     @ js ''</script></head></html>''"

definition example_JSON_parse :: "jsstring \<Rightarrow> jsval option" where
  "example_JSON_parse t =
     (if t = markup_block
      then Some (JObj [(js ''@type'', JStr (js ''Recipe'')),
                       (js ''name'', JStr (js ''<scr<script>ipt>'')),
                       (js ''recipeYield'', JStr (js ''<script>'')),
                       (js ''image'', JArr [JObj [(js ''@type'', JStr (js ''ImageObject'')),
                                                 (js ''url'', JStr (js ''https://example.org/tea.jpg''))]])])
      else None)"

section \<open>The rate limiter\<close>

lemma checkRateLimit_calls_within_window:
  "m ip = Some e \<Longrightarrow> \<forall>a \<in> set (timestamps e @ ts). \<forall>b \<in> set (timestamps e @ ts). a - b < RATE_LIMIT_WINDOW_MS
   \<Longrightarrow> length (timestamps e @ ts) \<le> RATE_LIMIT_MAX
   \<Longrightarrow> \<exists>m'. checkRateLimit_calls ip ts m = (replicate (length ts) True, m')
        \<and> m' ip = Some (e\<lparr>timestamps := timestamps e @ ts\<rparr>) \<and> (\<forall>k. k \<noteq> ip \<longrightarrow> m' k = m k)"
proof (induction ts arbitrary: m e)
  case Nil
  then show ?case by simp
next
  case (Cons t ts)
  have keep: "filter (\<lambda>x. t - x < RATE_LIMIT_WINDOW_MS) (timestamps e) = timestamps e"
    using Cons.prems(2) by (auto simp: filter_id_conv)
  have len: "\<not> RATE_LIMIT_MAX \<le> length (timestamps e)"
    using Cons.prems(3) by simp
  let ?e = "e\<lparr>timestamps := timestamps e @ [t]\<rparr>"
  let ?m = "m(ip \<mapsto> ?e)"
  have step: "checkRateLimit t ip m = (True, ?m)"
    using Cons.prems(1) keep len by (simp add: checkRateLimit_def)
  have "\<exists>m'. checkRateLimit_calls ip ts ?m = (replicate (length ts) True, m')
        \<and> m' ip = Some (?e\<lparr>timestamps := timestamps ?e @ ts\<rparr>) \<and> (\<forall>k. k \<noteq> ip \<longrightarrow> m' k = ?m k)"
    using Cons.prems by (intro Cons.IH) auto
  then show ?case using step by auto
qed


text \<open>
  A sweep is not seen by the calls that follow it: a call at a later time gives the same
  answer and leaves the same timestamps for the client as it would without the sweep.
\<close>

lemma sweep_not_observed:
  assumes "s \<le> now"
  shows "fst (checkRateLimit now ip (sweep s m)) = fst (checkRateLimit now ip m)
         \<and> snd (checkRateLimit now ip (sweep s m)) ip = snd (checkRateLimit now ip m) ip"
proof (cases "m ip")
  case None
  then show ?thesis
    by (simp add: checkRateLimit_def sweep_def)
next
  case (Some e)
  let ?old = "filter (\<lambda>t. s - t < RATE_LIMIT_WINDOW_MS) (timestamps e)"
  have twice: "filter (\<lambda>t. now - t < RATE_LIMIT_WINDOW_MS) ?old
               = filter (\<lambda>t. now - t < RATE_LIMIT_WINDOW_MS) (timestamps e)"
    using assms by (auto intro: filter_cong)
  show ?thesis
  proof (cases "?old = []")
    case True
    then have "filter (\<lambda>t. now - t < RATE_LIMIT_WINDOW_MS) (timestamps e) = []"
      using twice by simp
    then show ?thesis
      using Some True by (simp add: checkRateLimit_def sweep_def RATE_LIMIT_MAX_def)
  next
    case False
    then show ?thesis
      using Some twice by (simp add: checkRateLimit_def sweep_def Let_def)
  qed
qed

text \<open>
  C5. For a client the table does not know yet, ten calls at non-decreasing times all
  return true; an eleventh call less than a window after the first returns false and
  leaves the table as it was, the ten timestamps included; and a call a full window or
  more after the first returns true again.
\<close>

theorem rate_limit_window:
  assumes fresh: "m ip = None"
    and len: "length ts = 10"
    and mono: "sorted (ts @ [t11])"
    and span: "t11 - hd ts < RATE_LIMIT_WINDOW_MS"
    and later: "RATE_LIMIT_WINDOW_MS \<le> t12 - hd ts"
  shows "\<exists>m1 m3. checkRateLimit_calls ip ts m = (replicate 10 True, m1)
           \<and> m1 ip = Some \<lparr>timestamps = ts\<rparr>
           \<and> checkRateLimit t11 ip m1 = (False, m1)
           \<and> checkRateLimit t12 ip m1 = (True, m3)"
proof -
  from len obtain t1 rest where ts: "ts = t1 # rest"
    by (cases ts) auto
  have bound: "\<forall>a \<in> set (ts @ [t11]). \<forall>b \<in> set (ts @ [t11]). a - b < RATE_LIMIT_WINDOW_MS"
  proof (intro ballI)
    fix a b
    assume a: "a \<in> set (ts @ [t11])" and b: "b \<in> set (ts @ [t11])"
    have "a \<le> t11" using mono a by (auto simp: sorted_append)
    moreover have "t1 \<le> b" using mono b ts by (auto simp: sorted_append)
    ultimately show "a - b < RATE_LIMIT_WINDOW_MS" using span ts by simp
  qed
  let ?e = "\<lparr>timestamps = [t1]\<rparr>"
  let ?m0 = "m(ip \<mapsto> ?e)"
  have first: "checkRateLimit t1 ip m = (True, ?m0)"
    using fresh by (simp add: checkRateLimit_def)
  have "\<exists>m'. checkRateLimit_calls ip rest ?m0 = (replicate (length rest) True, m')
        \<and> m' ip = Some (?e\<lparr>timestamps := timestamps ?e @ rest\<rparr>) \<and> (\<forall>k. k \<noteq> ip \<longrightarrow> m' k = ?m0 k)"
    using bound len ts by (intro checkRateLimit_calls_within_window) (auto simp: RATE_LIMIT_MAX_def)
  then obtain m1 where run: "checkRateLimit_calls ip rest ?m0 = (replicate (length rest) True, m1)"
    and m1: "m1 ip = Some \<lparr>timestamps = ts\<rparr>"
    using ts by auto
  have all: "checkRateLimit_calls ip ts m = (replicate 10 True, m1)"
    using first run len ts by (simp add: numeral_eq_Suc)
  have keep: "filter (\<lambda>x. t11 - x < RATE_LIMIT_WINDOW_MS) ts = ts"
    using bound by (auto simp: filter_id_conv)
  have "m1(ip \<mapsto> \<lparr>timestamps = ts\<rparr>) = m1"
    using m1 by (auto simp: fun_eq_iff)
  then have eleventh: "checkRateLimit t11 ip m1 = (False, m1)"
    using m1 keep len by (simp add: checkRateLimit_def RATE_LIMIT_MAX_def)
  have "length (filter (\<lambda>x. t12 - x < RATE_LIMIT_WINDOW_MS) ts) \<le> length rest"
    using later ts by (simp add: le_SucI)
  then have "\<not> RATE_LIMIT_MAX \<le> length (filter (\<lambda>x. t12 - x < RATE_LIMIT_WINDOW_MS) ts)"
    using len ts by (simp add: RATE_LIMIT_MAX_def)
  then have "\<exists>m3. checkRateLimit t12 ip m1 = (True, m3)"
    using m1 by (simp add: checkRateLimit_def Let_def)
  with all m1 eleventh show ?thesis by blast
qed

theorem rate_limit_window_witness:
  "\<exists>m1 m3. checkRateLimit_calls [49] [1, 2, 3, 4, 5, 6, 7, 8, 9, 10] Map.empty = (replicate 10 True, m1)
           \<and> m1 [49] = Some \<lparr>timestamps = [1, 2, 3, 4, 5, 6, 7, 8, 9, 10]\<rparr>
           \<and> checkRateLimit 59000 [49] m1 = (False, m1)
           \<and> checkRateLimit 60001 [49] m1 = (True, m3)"
  using rate_limit_window [of Map.empty "[49]" "[1, 2, 3, 4, 5, 6, 7, 8, 9, 10]" 59000 60001]
  by (simp add: RATE_LIMIT_WINDOW_MS_def)


section \<open>The cache\<close>

lemma Map_set_new: "k \<notin> set (map fst ps) \<Longrightarrow> Map_set k v ps = ps @ [(k, v)]"
  by (induction ps) auto

lemma Map_delete_oldest:
  "distinct (map fst (p # ps)) \<Longrightarrow> Map_delete (fst p) (p # ps) = ps"
proof -
  assume "distinct (map fst (p # ps))"
  then have "fst p \<notin> fst ` set ps" by simp
  then have "\<forall>q \<in> set ps. fst q \<noteq> fst p" by (metis image_eqI)
  then show ?thesis by (simp add: Map_delete_def filter_id_conv)
qed

lemma map_of_Map_set: "map_of (Map_set k v ps) k = Some v"
  by (induction ps) auto

lemma setCache_keys:
  assumes "distinct (map fst c)" "url \<notin> set (map fst c)" "length c \<le> CACHE_MAX_ENTRIES"
  shows "map fst (setCache now url d c) =
           drop (Suc (length c) - CACHE_MAX_ENTRIES) (map fst c @ [url])"
proof (cases "CACHE_MAX_ENTRIES \<le> length c")
  case False
  then show ?thesis using assms by (simp add: setCache_def Map_set_new)
next
  case True
  then obtain oldest e ps where c: "c = (oldest, e) # ps"
    by (cases c) (auto simp: CACHE_MAX_ENTRIES_def)
  have del: "Map_delete oldest c = ps"
    using assms(1) c Map_delete_oldest [of "(oldest, e)" ps] by simp
  have "url \<notin> set (map fst ps)" using assms(2) c by simp
  then have "Map_set url \<lparr>data = d, timestamp = now\<rparr> ps = ps @ [(url, \<lparr>data = d, timestamp = now\<rparr>)]"
    by (rule Map_set_new)
  then have "setCache now url d c = ps @ [(url, \<lparr>data = d, timestamp = now\<rparr>)]"
    using True del unfolding setCache_def c by simp
  moreover have "Suc (length c) - CACHE_MAX_ENTRIES = 1"
    using True assms(3) by simp
  ultimately show ?thesis using c by simp
qed

lemma setCache_all_keys:
  "distinct (map fst c @ map fst ins) \<Longrightarrow> length c \<le> CACHE_MAX_ENTRIES \<Longrightarrow>
   map fst (setCache_all ins c) =
     drop (length c + length ins - CACHE_MAX_ENTRIES) (map fst c @ map fst ins)"
proof (induction ins arbitrary: c)
  case Nil
  then show ?case by simp
next
  case (Cons i ins)
  obtain url d now where i: "i = (url, d, now)" by (cases i) auto
  let ?c = "setCache now url d c"
  have keys: "map fst ?c = drop (Suc (length c) - CACHE_MAX_ENTRIES) (map fst c @ [url])"
    using Cons.prems i by (intro setCache_keys) auto
  have len: "length ?c = Suc (length c) - (Suc (length c) - CACHE_MAX_ENTRIES)"
    by (metis keys length_map length_drop length_append_singleton)
  have sub: "set (map fst ?c) \<subseteq> set (map fst c @ [url])"
    unfolding keys by (rule set_drop_subset)
  have "distinct (map fst c @ [url])"
    using Cons.prems(1) i by auto
  then have "distinct (map fst ?c)"
    unfolding keys by (rule distinct_drop)
  moreover have "set (map fst c @ [url]) \<inter> set (map fst ins) = {}"
    using Cons.prems(1) i by auto
  then have "set (map fst ?c) \<inter> set (map fst ins) = {}"
    using sub by blast
  moreover have "distinct (map fst ins)"
    using Cons.prems(1) by simp
  ultimately have "distinct (map fst ?c @ map fst ins)"
    by simp
  moreover have "length ?c \<le> CACHE_MAX_ENTRIES"
    using Cons.prems(2) len by simp
  ultimately have "map fst (setCache_all ins ?c) =
      drop (length ?c + length ins - CACHE_MAX_ENTRIES) (map fst ?c @ map fst ins)"
    by (rule Cons.IH)
  then have IH: "map fst (setCache_all (i # ins) c) =
      drop (length ?c + length ins - CACHE_MAX_ENTRIES) (map fst ?c @ map fst ins)"
    using i by simp
  show ?case
  proof (cases "length c = CACHE_MAX_ENTRIES")
    case False
    then have "Suc (length c) - CACHE_MAX_ENTRIES = 0"
      using Cons.prems(2) by simp
    then have "map fst ?c = map fst c @ [url]" and "length ?c = Suc (length c)"
      using keys len by simp_all
    then show ?thesis using IH i by simp
  next
    case True
    then obtain k ks where ks: "map fst c = k # ks"
      by (cases c) (auto simp: CACHE_MAX_ENTRIES_def)
    have one: "Suc (length c) - CACHE_MAX_ENTRIES = 1"
      using True by simp
    have "map fst ?c @ map fst ins = drop 1 (map fst c @ map fst (i # ins))"
      using keys i ks unfolding one by simp
    moreover have "length ?c = CACHE_MAX_ENTRIES"
      using len True unfolding one by simp
    ultimately have "map fst (setCache_all (i # ins) c) =
        drop (length ins) (drop 1 (map fst c @ map fst (i # ins)))"
      using IH by simp
    also have "\<dots> = drop (length ins + 1) (map fst c @ map fst (i # ins))"
      by (simp only: drop_drop)
    also have "length ins + 1 = length c + length (i # ins) - CACHE_MAX_ENTRIES"
      using True by simp
    finally show ?thesis .
  qed
qed

text \<open>
  C6. After 201 insertions of distinct URLs into a cache that holds none of them (and no
  more than its capacity of 200), the URL inserted first is gone and \<^verbatim>\<open>getCached\<close>
  returns null for it. An entry carries the time of its insertion, and \<^verbatim>\<open>getCached\<close>
  returns null for an entry (and deletes it) once more than the TTL has passed since.
\<close>

theorem cache_eviction_and_ttl:
  "(distinct (map fst c0 @ map fst ins) \<and> length c0 \<le> CACHE_MAX_ENTRIES \<and> length ins = 201 \<longrightarrow>
      map_of (setCache_all ins c0) (fst (hd ins)) = None
      \<and> fst (getCached now (fst (hd ins)) (setCache_all ins c0)) = None)
   \<and> (map_of (setCache t url d c) url = Some \<lparr>data = d, timestamp = t\<rparr>)
   \<and> (map_of c url = Some entry \<and> CACHE_TTL_MS < now - timestamp entry \<longrightarrow>
        getCached now url c = (None, Map_delete url c))"
proof (intro conjI impI)
  assume a: "distinct (map fst c0 @ map fst ins) \<and> length c0 \<le> CACHE_MAX_ENTRIES \<and> length ins = 201"
  then obtain i rest where ins: "ins = i # rest" by (cases ins) auto
  have "map fst (setCache_all ins c0) =
      drop (length c0 + length ins - CACHE_MAX_ENTRIES) (map fst c0 @ map fst ins)"
    using a by (intro setCache_all_keys) auto
  also have "length c0 + length ins - CACHE_MAX_ENTRIES = length (map fst c0) + 1"
    using a by (simp add: CACHE_MAX_ENTRIES_def)
  finally have "map fst (setCache_all ins c0) = map fst rest"
    using ins by simp
  moreover have "fst i \<notin> set (map fst rest)" using a ins by auto
  ultimately have "fst (hd ins) \<notin> fst ` set (setCache_all ins c0)"
    using ins by (metis list.sel(1) set_map)
  then show gone: "map_of (setCache_all ins c0) (fst (hd ins)) = None"
    by (simp add: map_of_eq_None_iff)
  then show "fst (getCached now (fst (hd ins)) (setCache_all ins c0)) = None"
    by (simp add: getCached_def)
next
  show "map_of (setCache t url d c) url = Some \<lparr>data = d, timestamp = t\<rparr>"
    by (simp add: setCache_def map_of_Map_set)
next
  assume "map_of c url = Some entry \<and> CACHE_TTL_MS < now - timestamp entry"
  then show "getCached now url c = (None, Map_delete url c)"
    by (simp add: getCached_def)
qed

theorem cache_eviction_and_ttl_witness:
  "map_of (setCache_all (map (\<lambda>i. (i, JNull, int i)) [0..<201]) []) (0::nat) = None
   \<and> fst (getCached 3600002 (0::nat) (setCache_all (map (\<lambda>i. (i, JNull, int i)) [0..<201]) [])) = None
   \<and> getCached 3600002 (7::nat) [(7, \<lparr>data = JNull, timestamp = 1\<rparr>)] = (None, [])"
proof -
  let ?ins = "map (\<lambda>i. (i, JNull, int i)) [0..<201]"
  have keys: "map fst ?ins = [0..<201]"
    by (simp only: map_map comp_def fst_conv map_ident)
  have pre: "distinct (map fst ([]::(nat \<times> jsval cache_entry) list) @ map fst ?ins)
             \<and> length ([]::(nat \<times> jsval cache_entry) list) \<le> CACHE_MAX_ENTRIES \<and> length ?ins = 201"
    unfolding keys by (simp only: list.map append_Nil distinct_upt length_upt list.size length_map) simp
  have first: "fst (hd ?ins) = 0"
    by (simp only: upt_conv_Cons [of 0 201, simplified] list.map list.sel fst_conv)
  have old: "map_of [(7::nat, \<lparr>data = JNull, timestamp = 1\<rparr>)] 7 = Some \<lparr>data = JNull, timestamp = 1\<rparr>
             \<and> CACHE_TTL_MS < 3600002 - timestamp \<lparr>data = JNull, timestamp = 1\<rparr>"
    by (simp add: CACHE_TTL_MS_def)
  show ?thesis
    using cache_eviction_and_ttl [where ?c0.0 = "[]" and ins = ?ins and now = 3600002 and url = "7::nat"
        and c = "[(7::nat, \<lparr>data = JNull, timestamp = 1\<rparr>)]"
        and entry = "\<lparr>data = JNull, timestamp = 1\<rparr>"] pre first old
    by (simp add: Map_delete_def)
qed

section \<open>The sanitizer\<close>

lemma replace_all_Nil: "replace_all m [] = []"
  by simp

lemma replace_all_Cons:
  "replace_all m (c # cs) =
     (case m (c # cs) of
        None \<Rightarrow> c # replace_all m cs
      | Some (rep, rest) \<Rightarrow>
          if length rest < Suc (length cs) then rep @ replace_all m rest
          else c # replace_all m cs)"
  by (subst replace_all.simps) (simp split: option.splits)

declare replace_all.simps [simp del]

lemmas char_defs =
  LT_def GT_def SLASH_def EQUALS_def COLON_def COMMA_def DOT_def DQUOTE_def SQUOTE_def
  is_space_def is_digit_def is_word_def to_upper_def

lemmas sanitize_eval =
  sanitize_string_def js_def replace_all_Nil replace_all_Cons
  match_denylisted_tag_def match_event_handler_def match_scheme_attr_def match_script_block_def
  attr_value_end_def at_word_end_def after_gt_def DENYLIST_TAGS_def char_defs

text \<open>
  A match of any of the four patterns consumes at least one code unit, so the comparison
  of lengths in \<^verbatim>\<open>replace_all\<close> never decides.
\<close>

lemma ci_prefix_length: "ci_prefix p s = Some r \<Longrightarrow> length r + length p = length s"
  by (induction p s rule: ci_prefix.induct) (auto split: if_splits)

lemma first_alt_length: "first_alt ps s = Some (g, r) \<Longrightarrow> length r \<le> length s"
  by (induction ps) (auto split: option.splits dest: ci_prefix_length)

lemma find_ci_length: "find_ci pat s = Some (b, r) \<Longrightarrow> length r \<le> length s"
  by (induction s arbitrary: b) (auto split: option.splits dest!: ci_prefix_length)

lemma after_gt_length: "after_gt s = Some r \<Longrightarrow> length r < length s"
proof -
  assume "after_gt s = Some r"
  then obtain c where "dropWhile (\<lambda>c. c \<noteq> GT) s = c # r"
    by (auto simp: after_gt_def split: list.splits)
  then have "Suc (length r) = length (dropWhile (\<lambda>c. c \<noteq> GT) s)"
    by simp
  also have "\<dots> \<le> length s"
    by (rule length_dropWhile_le)
  finally show ?thesis by simp
qed

lemma dropWhile_Cons_length: "dropWhile P s = c # r \<Longrightarrow> length r < length s"
  using length_dropWhile_le [of P s] by simp

lemma match_denylisted_tag_consumes:
  assumes "match_denylisted_tag s = Some (rep, rest)"
  shows "length rest < length s"
proof -
  obtain c r where s: "s = c # r"
    using assms by (cases s) (simp_all add: match_denylisted_tag_def)
  let ?r1 = "dropWhile is_space r"
  let ?r2 = "case ?r1 of [] \<Rightarrow> ?r1 | d # t \<Rightarrow> if d = SLASH then t else ?r1"
  let ?r3 = "dropWhile is_space ?r2"
  from assms s obtain g r4 where alt: "first_alt DENYLIST_TAGS ?r3 = Some (g, r4)"
    and gt: "after_gt r4 = Some rest"
    by (auto simp: match_denylisted_tag_def Let_def split: if_splits option.splits)
  have "length ?r2 \<le> length ?r1"
    by (auto split: list.splits)
  then have "length ?r3 \<le> length r"
    using length_dropWhile_le [of is_space ?r2] length_dropWhile_le [of is_space r] by linarith
  then show ?thesis
    using first_alt_length [OF alt] after_gt_length [OF gt] s by simp
qed

lemma attr_value_end_length: "length (attr_value_end r) \<le> length r"
proof (cases r)
  case Nil
  then show ?thesis by (simp add: attr_value_end_def)
next
  case (Cons q t)
  have "length (tl (dropWhile (\<lambda>c. c \<noteq> DQUOTE) t)) \<le> length t"
    and "length (tl (dropWhile (\<lambda>c. c \<noteq> SQUOTE) t)) \<le> length t"
    using length_dropWhile_le [of "\<lambda>c. c \<noteq> DQUOTE" t] length_dropWhile_le [of "\<lambda>c. c \<noteq> SQUOTE" t]
    by simp_all
  moreover have "length (dropWhile (\<lambda>c. \<not> is_space c \<and> c \<noteq> GT) r) \<le> length r"
    by (rule length_dropWhile_le)
  ultimately show ?thesis
    using Cons by (simp add: attr_value_end_def)
qed

lemma match_event_handler_consumes:
  assumes "match_event_handler s = Some (rep, rest)"
  shows "length rest < length s"
proof -
  obtain c r where s: "s = c # r"
    using assms by (cases s) (simp_all add: match_event_handler_def)
  from assms s obtain r2 w r3 e r4 where on: "ci_prefix (js ''on'') (dropWhile is_space r) = Some r2"
    and r2: "r2 = w # r3"
    and eq: "dropWhile is_space (dropWhile is_word r3) = e # r4"
    and rest: "rest = attr_value_end (dropWhile is_space r4)"
    by (auto simp: match_event_handler_def split: if_splits option.splits list.splits)
  have "length r2 \<le> length r"
    using ci_prefix_length [OF on] length_dropWhile_le [of is_space r] by simp
  moreover have "length r4 < length r3"
    using dropWhile_Cons_length [OF eq] length_dropWhile_le [of is_word r3] by simp
  moreover have "length rest \<le> length r4"
    unfolding rest using attr_value_end_length [of "dropWhile is_space r4"]
      length_dropWhile_le [of is_space r4] by simp
  ultimately show ?thesis
    using s r2 by simp
qed

lemma match_scheme_attr_consumes:
  assumes "match_scheme_attr s = Some (rep, rest)"
  shows "length rest < length s"
proof -
  from assms obtain g1 r1 e r2 where name: "first_alt (map js [''href'', ''src'', ''action'']) s = Some (g1, r1)"
    and eq: "dropWhile is_space r1 = e # r2"
    by (auto simp: match_scheme_attr_def split: option.splits list.splits)
  let ?r3 = "dropWhile is_space r2"
  let ?r4 = "case ?r3 of [] \<Rightarrow> ?r3 | q # t \<Rightarrow> if q = DQUOTE \<or> q = SQUOTE then t else ?r3"
  let ?r5 = "dropWhile is_space ?r4"
  from assms name eq obtain g2 r6 k where scheme:
      "first_alt (map js [''javascript'', ''data'', ''vbscript'']) ?r5 = Some (g2, r6)"
    and colon: "dropWhile is_space r6 = k # rest"
    by (auto simp: match_scheme_attr_def Let_def split: if_splits option.splits list.splits)
  have "length r2 < length s"
    using dropWhile_Cons_length [OF eq] first_alt_length [OF name] by simp
  moreover have "length ?r4 \<le> length ?r3"
    by (auto split: list.splits)
  then have "length ?r5 \<le> length r2"
    using length_dropWhile_le [of is_space ?r4] length_dropWhile_le [of is_space r2] by linarith
  moreover have "length rest < length ?r5"
    using dropWhile_Cons_length [OF colon] first_alt_length [OF scheme] by simp
  ultimately show ?thesis by simp
qed

lemma match_script_block_consumes:
  assumes "match_script_block s = Some (rep, rest)"
  shows "length rest < length s"
proof -
  from assms obtain r1 r2 b where "ci_prefix (js ''<script'') s = Some r1"
    and "after_gt r1 = Some r2" and "find_ci (js ''</script>'') r2 = Some (b, rest)"
    by (auto simp: match_script_block_def split: option.splits if_splits)
  then show ?thesis
    using ci_prefix_length [of "js ''<script''" s r1] after_gt_length [of r1 r2]
      find_ci_length [of "js ''</script>''" r2 b rest]
    by simp
qed

lemma match_jsonLd_consumes:
  assumes "match_jsonLd s = Some (g, rest)"
  shows "length rest < length s"
proof -
  from assms obtain r1 r2 where "ci_prefix (js ''<script'') s = Some r1"
    and "after_gt r1 = Some r2" and "find_ci (js ''</script>'') r2 = Some (g, rest)"
    by (auto simp: match_jsonLd_def split: option.splits if_splits)
  then show ?thesis
    using ci_prefix_length [of "js ''<script''" s r1] after_gt_length [of r1 r2]
      find_ci_length [of "js ''</script>''" r2 g rest]
    by simp
qed

text \<open>
  C2. The first replacement removes the two tags of
  \<^verbatim>\<open><script>alert(1)</script>Soup\<close> and leaves their content, so the last replacement
  finds no block to remove: the result is \<^verbatim>\<open>alert(1)Soup\<close>, as a string and as the
  name of a recipe.
\<close>

theorem sanitize_script_soup:
  "sanitizeText (JStr (js ''<script>alert(1)</script>Soup'')) = JStr (js ''alert(1)Soup'')
   \<and> name (sanitizeRecipe (r\<lparr>name := JStr (js ''<script>alert(1)</script>Soup'')\<rparr>))
       = JStr (js ''alert(1)Soup'')"
proof -
  have "sanitize_string (js ''<script>alert(1)</script>Soup'') = js ''alert(1)Soup''"
    by (simp add: sanitize_eval)
  then show ?thesis
    by (simp add: sanitizeRecipe_def js_def)
qed

text \<open>
  C3. Sanitizing is not idempotent. The first replacement removes the inner tag of the
  name \<^verbatim>\<open><scr<script>ipt>\<close> and leaves the tag \<^verbatim>\<open><script>\<close> that the removal splices
  together; sanitizing this result again removes that tag and gives the empty string. So
  a second \<^verbatim>\<open>sanitizeRecipe\<close> changes the Recipe that the first one returned.
\<close>

theorem sanitize_not_idempotent:
  "sanitizeText (JStr (js ''<scr<script>ipt>'')) = JStr (js ''<script>'')
   \<and> sanitizeText (sanitizeText (JStr (js ''<scr<script>ipt>''))) = JStr []
   \<and> sanitizeRecipe (sanitizeRecipe
         \<lparr>name = JStr (js ''<scr<script>ipt>''), description = JStr [], ingredients = [],
          instructions = [], servings = JNull, prepTime = JNull, cookTime = JNull,
          image_field = JNull\<rparr>)
       \<noteq> sanitizeRecipe
         \<lparr>name = JStr (js ''<scr<script>ipt>''), description = JStr [], ingredients = [],
          instructions = [], servings = JNull, prepTime = JNull, cookTime = JNull,
          image_field = JNull\<rparr>"
proof -
  have one: "sanitize_string (js ''<scr<script>ipt>'') = js ''<script>''"
    by (simp add: sanitize_eval)
  have two: "sanitize_string (js ''<script>'') = []"
    by (simp add: sanitize_eval)
  have three: "js ''<script>'' \<noteq> []" and four: "js ''<scr<script>ipt>'' \<noteq> []"
    by (simp_all add: js_def)
  show ?thesis
    using one two three four by (simp add: sanitizeRecipe_def)
qed

section \<open>SSRF protection\<close>

lemma toLowerCase_no_upper:
  "list_all (\<lambda>c. \<not> (65 \<le> c \<and> c \<le> 90)) s \<Longrightarrow> toLowerCase s = s"
  by (induction s) (simp_all add: toLowerCase_def)

lemma octet_no_upper: "octet ds \<Longrightarrow> list_all (\<lambda>c. \<not> (65 \<le> c \<and> c \<le> 90)) ds"
  by (auto simp: octet_def is_digit_def list_all_iff)

lemma toLowerCase_dotted_quad:
  assumes "octet a" "octet b" "octet c" "octet d"
  shows "toLowerCase (dotted_quad a b c d) = dotted_quad a b c d"
proof -
  have "list_all (\<lambda>c. \<not> (65 \<le> c \<and> c \<le> 90)) (dotted_quad a b c d)"
    using assms [THEN octet_no_upper] by (simp add: dotted_quad_def DOT_def)
  then show ?thesis by (rule toLowerCase_no_upper)
qed

lemma DOT_no_digit: "\<not> is_digit DOT"
  by (simp add: is_digit_def DOT_def)

lemma take_octet_dot_octet:
  assumes "octet ds"
  shows "take_octet_dot (ds @ DOT # r) = Some (digits_val ds, r)"
proof -
  have all: "\<And>x. x \<in> set ds \<Longrightarrow> is_digit x"
    using assms by (simp add: octet_def list_all_iff)
  have "takeWhile is_digit (ds @ DOT # r) = ds"
    using all by (simp add: DOT_no_digit)
  moreover have "dropWhile is_digit (ds @ DOT # r) = DOT # r"
    using all by (simp add: DOT_no_digit)
  ultimately show ?thesis
    using assms by (simp add: take_octet_dot_def take_octet_def octet_def)
qed

lemma take_octet_last:
  assumes "octet ds"
  shows "take_octet ds = Some (digits_val ds, [])"
proof -
  have all: "\<And>x. x \<in> set ds \<Longrightarrow> is_digit x"
    using assms by (simp add: octet_def list_all_iff)
  then have tw: "takeWhile is_digit ds = ds" and dw: "dropWhile is_digit ds = []"
    by simp_all
  show ?thesis
    using assms unfolding take_octet_def tw dw by (simp add: octet_def)
qed

lemma ipv4Match_dotted_quad:
  assumes "octet a" "octet b" "octet c" "octet d"
  shows "ipv4Match (dotted_quad a b c d) = Some (digits_val a, digits_val b, digits_val c, digits_val d)"
  using assms
  by (simp add: ipv4Match_def dotted_quad_def take_octet_dot_octet take_octet_last)

text \<open>
  C4. \<^verbatim>\<open>isUrlSafe\<close> returns false when its argument does not parse; when the scheme is
  not https; when the URL carries a user name or a password; when the host name is
  \<^verbatim>\<open>localhost\<close>, \<^verbatim>\<open>0.0.0.0\<close> or \<^verbatim>\<open>[::1]\<close>; and when the host name is a dotted quad
  whose first two numbers lie in 127/8, 10/8, 172.16/12, 192.168/16, 169.254/16 or 0/8.
\<close>

theorem isUrlSafe_rejects:
  "(newURL v = None \<longrightarrow> \<not> isUrlSafe newURL v)
   \<and> (newURL v = Some u \<and> protocol u \<noteq> js ''https:'' \<longrightarrow> \<not> isUrlSafe newURL v)
   \<and> (newURL v = Some u \<and> (username u \<noteq> [] \<or> password u \<noteq> []) \<longrightarrow> \<not> isUrlSafe newURL v)
   \<and> (newURL v = Some u \<and> hostname u \<in> set [js ''localhost'', js ''0.0.0.0'', js ''[::1]'']
        \<longrightarrow> \<not> isUrlSafe newURL v)
   \<and> (newURL v = Some u \<and> octet a \<and> octet b \<and> octet c \<and> octet d
        \<and> hostname u = dotted_quad a b c d \<and> private_range (digits_val a) (digits_val b)
        \<longrightarrow> \<not> isUrlSafe newURL v)"
proof (intro conjI impI)
  assume "newURL v = None"
  then show "\<not> isUrlSafe newURL v"
    by (simp add: isUrlSafe_def)
next
  assume "newURL v = Some u \<and> protocol u \<noteq> js ''https:''"
  then show "\<not> isUrlSafe newURL v"
    by (simp add: isUrlSafe_def)
next
  assume "newURL v = Some u \<and> (username u \<noteq> [] \<or> password u \<noteq> [])"
  then show "\<not> isUrlSafe newURL v"
    by (auto simp: isUrlSafe_def)
next
  assume a: "newURL v = Some u \<and> hostname u \<in> set [js ''localhost'', js ''0.0.0.0'', js ''[::1]'']"
  have "toLowerCase (js ''localhost'') = js ''localhost''"
    and "toLowerCase (js ''0.0.0.0'') = js ''0.0.0.0''"
    and "toLowerCase (js ''[::1]'') = js ''[::1]''"
    by (simp_all add: toLowerCase_def js_def)
  then have "toLowerCase (hostname u) \<in> set [js ''localhost'', js ''0.0.0.0'', js ''[::1]'']"
    using a by auto
  then show "\<not> isUrlSafe newURL v"
    using a by (auto simp: isUrlSafe_def Let_def)
next
  assume a: "newURL v = Some u \<and> octet a \<and> octet b \<and> octet c \<and> octet d
        \<and> hostname u = dotted_quad a b c d \<and> private_range (digits_val a) (digits_val b)"
  then have low: "toLowerCase (hostname u) = dotted_quad a b c d"
    by (simp add: toLowerCase_dotted_quad)
  have ip: "ipv4Match (dotted_quad a b c d) = Some (digits_val a, digits_val b, digits_val c, digits_val d)"
    using a by (simp add: ipv4Match_dotted_quad)
  have "private_range (digits_val a) (digits_val b)"
    using a by simp
  then show "\<not> isUrlSafe newURL v"
    using a low ip by (auto simp: isUrlSafe_def Let_def private_range_def)
qed

lemmas example_eval = example_newURL_def https_host_def js_def

theorem isUrlSafe_rejects_witness:
  "\<not> isUrlSafe example_newURL (JStr (js ''not a url''))
   \<and> \<not> isUrlSafe example_newURL (JStr (js ''https://10.1.2.3/''))"
proof -
  have none: "example_newURL (JStr (js ''not a url'')) = None"
    by (simp add: example_eval)
  have some: "example_newURL (JStr (js ''https://10.1.2.3/'')) = Some (https_host ''10.1.2.3'')"
    by (simp add: example_eval)
  have oct: "octet (js ''10'')" "octet (js ''1'')" "octet (js ''2'')" "octet (js ''3'')"
    by (simp_all add: octet_def is_digit_def js_def)
  have host: "hostname (https_host ''10.1.2.3'') = dotted_quad (js ''10'') (js ''1'') (js ''2'') (js ''3'')"
    by (simp add: https_host_def dotted_quad_def DOT_def js_def)
  have range: "private_range (digits_val (js ''10'')) (digits_val (js ''1''))"
    by (simp add: private_range_def digits_val_def js_def)
  show ?thesis
    using isUrlSafe_rejects [of example_newURL "JStr (js ''not a url'')"]
      isUrlSafe_rejects [of example_newURL "JStr (js ''https://10.1.2.3/'')" "https_host ''10.1.2.3''"
        "js ''10''" "js ''1''" "js ''2''" "js ''3''"]
      none some oct host range
    by simp
qed

section \<open>The domain allowlist\<close>

lemma strip_www_www: "strip_www (js ''www.'' @ d) = d"
  by (simp add: strip_www_def js_def)

lemma allowed_not_www: "d \<in> set ALLOWED_DOMAINS \<Longrightarrow> strip_www d = d"
  by (auto simp: ALLOWED_DOMAINS_def strip_www_def js_def)

lemma strip_www_cases: "h = strip_www h \<or> h = js ''www.'' @ strip_www h"
proof (cases "take 4 h = js ''www.''")
  case True
  then have "h = js ''www.'' @ drop 4 h"
    by (metis append_take_drop_id)
  then show ?thesis using True by (simp add: strip_www_def)
next
  case False
  then show ?thesis by (simp add: strip_www_def)
qed

text \<open>
  C8. \<^verbatim>\<open>isDomainAllowed\<close> is false when its argument does not parse; otherwise it is
  true exactly when the lower-cased host name without a leading \<^verbatim>\<open>www.\<close> is in the
  allowlist, that is, when the lower-cased host name is a listed domain or \<^verbatim>\<open>www.\<close>
  before one. With the host names \<^verbatim>\<open>www.allrecipes.com\<close>, \<^verbatim>\<open>allrecipes.com\<close> and
  \<^verbatim>\<open>evil.allrecipes.com\<close>, which the URL parser gives for the three example URLs, the
  first two are allowed and the third is not.
\<close>

theorem isDomainAllowed_exact:
  "(newURL v = None \<longrightarrow> \<not> isDomainAllowed newURL v)
   \<and> (newURL v = Some u \<longrightarrow>
        isDomainAllowed newURL v = (strip_www (toLowerCase (hostname u)) \<in> set ALLOWED_DOMAINS))
   \<and> (newURL v = Some u \<longrightarrow>
        isDomainAllowed newURL v =
          (\<exists>d \<in> set ALLOWED_DOMAINS.
             toLowerCase (hostname u) = d \<or> toLowerCase (hostname u) = js ''www.'' @ d))
   \<and> (newURL v = Some u \<and> hostname u = js ''www.allrecipes.com'' \<longrightarrow> isDomainAllowed newURL v)
   \<and> (newURL v = Some u \<and> hostname u = js ''allrecipes.com'' \<longrightarrow> isDomainAllowed newURL v)
   \<and> (newURL v = Some u \<and> hostname u = js ''evil.allrecipes.com'' \<longrightarrow> \<not> isDomainAllowed newURL v)"
proof (intro conjI impI)
  assume "newURL v = None"
  then show "\<not> isDomainAllowed newURL v"
    by (simp add: isDomainAllowed_def)
next
  assume "newURL v = Some u"
  then show "isDomainAllowed newURL v = (strip_www (toLowerCase (hostname u)) \<in> set ALLOWED_DOMAINS)"
    by (simp add: isDomainAllowed_def)
next
  assume u: "newURL v = Some u"
  let ?h = "toLowerCase (hostname u)"
  have "strip_www ?h \<in> set ALLOWED_DOMAINS \<longleftrightarrow>
        (\<exists>d \<in> set ALLOWED_DOMAINS. ?h = d \<or> ?h = js ''www.'' @ d)"
  proof
    assume "strip_www ?h \<in> set ALLOWED_DOMAINS"
    then show "\<exists>d \<in> set ALLOWED_DOMAINS. ?h = d \<or> ?h = js ''www.'' @ d"
      using strip_www_cases [of ?h] by blast
  next
    assume "\<exists>d \<in> set ALLOWED_DOMAINS. ?h = d \<or> ?h = js ''www.'' @ d"
    then obtain d where d: "d \<in> set ALLOWED_DOMAINS" and h: "?h = d \<or> ?h = js ''www.'' @ d"
      by blast
    from h have "strip_www ?h = d"
      using allowed_not_www [OF d] strip_www_www [of d] by auto
    then show "strip_www ?h \<in> set ALLOWED_DOMAINS"
      using d by simp
  qed
  then show "isDomainAllowed newURL v =
      (\<exists>d \<in> set ALLOWED_DOMAINS. ?h = d \<or> ?h = js ''www.'' @ d)"
    using u by (simp add: isDomainAllowed_def)
next
  assume "newURL v = Some u \<and> hostname u = js ''www.allrecipes.com''"
  then show "isDomainAllowed newURL v"
    by (simp add: isDomainAllowed_def strip_www_def toLowerCase_def ALLOWED_DOMAINS_def js_def)
next
  assume "newURL v = Some u \<and> hostname u = js ''allrecipes.com''"
  then show "isDomainAllowed newURL v"
    by (simp add: isDomainAllowed_def strip_www_def toLowerCase_def ALLOWED_DOMAINS_def js_def)
next
  assume "newURL v = Some u \<and> hostname u = js ''evil.allrecipes.com''"
  then show "\<not> isDomainAllowed newURL v"
    by (simp add: isDomainAllowed_def strip_www_def toLowerCase_def ALLOWED_DOMAINS_def js_def)
qed

theorem isDomainAllowed_exact_witness:
  "isDomainAllowed example_newURL (JStr (js ''https://www.allrecipes.com/x''))
   \<and> isDomainAllowed example_newURL (JStr (js ''https://allrecipes.com/x''))
   \<and> \<not> isDomainAllowed example_newURL (JStr (js ''https://evil.allrecipes.com/x''))
   \<and> \<not> isDomainAllowed example_newURL (JStr (js ''not a url''))"
proof -
  have p1: "example_newURL (JStr (js ''https://www.allrecipes.com/x'')) = Some (https_host ''www.allrecipes.com'')"
    and p2: "example_newURL (JStr (js ''https://allrecipes.com/x'')) = Some (https_host ''allrecipes.com'')"
    and p3: "example_newURL (JStr (js ''https://evil.allrecipes.com/x'')) = Some (https_host ''evil.allrecipes.com'')"
    and p4: "example_newURL (JStr (js ''not a url'')) = None"
    by (simp_all add: example_eval)
  have h: "hostname (https_host ''www.allrecipes.com'') = js ''www.allrecipes.com''"
    "hostname (https_host ''allrecipes.com'') = js ''allrecipes.com''"
    "hostname (https_host ''evil.allrecipes.com'') = js ''evil.allrecipes.com''"
    by (simp_all add: https_host_def)
  show ?thesis
    using isDomainAllowed_exact [of example_newURL "JStr (js ''https://www.allrecipes.com/x'')" "https_host ''www.allrecipes.com''"]
      isDomainAllowed_exact [of example_newURL "JStr (js ''https://allrecipes.com/x'')" "https_host ''allrecipes.com''"]
      isDomainAllowed_exact [of example_newURL "JStr (js ''https://evil.allrecipes.com/x'')" "https_host ''evil.allrecipes.com''"]
      isDomainAllowed_exact [of example_newURL "JStr (js ''not a url'')"]
      p1 p2 p3 p4 h
    by blast
qed

section \<open>Rejections before the fetch and the rate limiter\<close>

lemma checkRateLimit_allowed_records:
  "checkRateLimit now ip rl = (True, rl') \<Longrightarrow>
   \<exists>e. rl' ip = Some e \<and> timestamps e \<noteq> [] \<and> last (timestamps e) = now"
  by (auto simp: checkRateLimit_def Let_def split: option.splits if_splits)

lemma checkRateLimit_allowed_slot:
  "checkRateLimit now ip rl = (True, rl') \<Longrightarrow> slot_consumed now ip rl rl'"
  using checkRateLimit_allowed_records [of now ip rl rl']
  by (auto simp: slot_consumed_def)

text \<open>
  C9, as stated, fails for the method rejection: a GET request is answered with 405
  before the rate limiter is called, and the table stays empty.
\<close>

theorem method_rejection_consumes_no_slot:
  "handler_validate example_newURL 1000
     \<lparr>req_method = js ''GET'', x_forwarded_for = Some (js ''203.0.113.9''), x_real_ip = None,
      remoteAddress = None, body = JObj [(js ''url'', JStr (js ''https://allrecipes.com/x''))]\<rparr>
     Map.empty
   = (Responded 405 (js ''Method not allowed''), Map.empty)
   \<and> clientIp
     \<lparr>req_method = js ''GET'', x_forwarded_for = Some (js ''203.0.113.9''), x_real_ip = None,
      remoteAddress = None, body = JObj [(js ''url'', JStr (js ''https://allrecipes.com/x''))]\<rparr>
     = js ''203.0.113.9''
   \<and> \<not> slot_consumed 1000 (js ''203.0.113.9'') Map.empty Map.empty"
  by (simp add: handler_validate_def clientIp_def or_string_def trim_def slot_consumed_def
      js_def char_defs)

text \<open>
  C9, amended. A request rejected with status 400 (URL missing, unsafe or on no allowed
  domain) has passed the rate limiter, which recorded it; a request rejected with status
  405 for its method leaves the rate limiter's table as it was.
\<close>

theorem rejections_and_rate_limit:
  "(handler_validate newURL now req rl = (Responded 400 msg, rl') \<longrightarrow>
      slot_consumed now (clientIp req) rl rl')
   \<and> (handler_validate newURL now req rl = (Responded 405 msg, rl') \<longrightarrow> rl' = rl)"
proof (intro conjI impI)
  assume a: "handler_validate newURL now req rl = (Responded 400 msg, rl')"
  obtain allowed rl1 where c: "checkRateLimit now (clientIp req) rl = (allowed, rl1)"
    by (cases "checkRateLimit now (clientIp req) rl") auto
  from a c have "allowed \<and> rl1 = rl'"
    by (auto simp: handler_validate_def split: if_splits sum.splits)
  with c show "slot_consumed now (clientIp req) rl rl'"
    by (simp add: checkRateLimit_allowed_slot)
next
  assume a: "handler_validate newURL now req rl = (Responded 405 msg, rl')"
  then show "rl' = rl"
    by (auto simp: handler_validate_def split: if_splits sum.splits prod.splits)
qed

theorem rejections_and_rate_limit_witness:
  "slot_consumed 1000 (js ''unknown'') Map.empty
     (snd (handler_validate example_newURL 1000
        \<lparr>req_method = js ''POST'', x_forwarded_for = None, x_real_ip = None,
         remoteAddress = None, body = JObj []\<rparr> Map.empty))
   \<and> snd (handler_validate example_newURL 1000
        \<lparr>req_method = js ''GET'', x_forwarded_for = None, x_real_ip = None,
         remoteAddress = None, body = JObj []\<rparr> Map.empty) = Map.empty"
proof -
  let ?post = "\<lparr>req_method = js ''POST'', x_forwarded_for = None, x_real_ip = None,
         remoteAddress = None, body = JObj []\<rparr>"
  let ?get = "\<lparr>req_method = js ''GET'', x_forwarded_for = None, x_real_ip = None,
         remoteAddress = None, body = JObj []\<rparr>"
  have ip: "clientIp ?post = js ''unknown''"
    by (simp add: clientIp_def or_string_def js_def)
  have p: "fst (handler_validate example_newURL 1000 ?post Map.empty)
           = Responded 400 (js ''URL is required'')"
    by (simp add: handler_validate_def checkRateLimit_def clientIp_def or_string_def js_def)
  have g: "fst (handler_validate example_newURL 1000 ?get Map.empty)
           = Responded 405 (js ''Method not allowed'')"
    by (simp add: handler_validate_def js_def)
  show ?thesis
    using rejections_and_rate_limit [of example_newURL 1000 ?post Map.empty "js ''URL is required''"
        "snd (handler_validate example_newURL 1000 ?post Map.empty)"]
      rejections_and_rate_limit [of example_newURL 1000 ?get Map.empty "js ''Method not allowed''"
        "snd (handler_validate example_newURL 1000 ?get Map.empty)"]
      ip p [symmetric] g [symmetric]
    by (simp add: prod_eq_iff)
qed

section \<open>Recipe resolution\<close>













section \<open>The two handlers\<close>

lemma find_recipe_loop_v2_eq: "find_recipe_loop_v2 recipe matches = find_recipe_loop recipe matches"
  by (induction matches arbitrary: recipe) (simp_all split: sum.splits)

text \<open>
  C10. For every page, the two handlers parse the same list of candidates and resolve
  the same Recipe from it, or both resolve none, or both raise the same exception.
\<close>

theorem handlers_resolve_alike:
  "jsonLd_matches_v2 JSON_parse html = jsonLd_matches JSON_parse html
   \<and> find_recipe_v2 matches = find_recipe matches
   \<and> find_recipe_v2 (jsonLd_matches_v2 JSON_parse html) = find_recipe (jsonLd_matches JSON_parse html)"
  by (simp add: jsonLd_matches_v2_def jsonLd_matches_def find_recipe_v2_def find_recipe_def
      find_recipe_loop_v2_eq)

section \<open>The Recipe that is returned\<close>

lemmas extract_eval =
  recipe_response_def extract_fields_def ebind_def jsor_def ingredients_of_def instructions_of_def
  image_of_def validate_image_def sanitizeRecipe_def trim_def

lemma jsonLdRegex_exec_all_Nil: "jsonLdRegex_exec_all [] = []"
  by simp

lemma jsonLdRegex_exec_all_Cons:
  "jsonLdRegex_exec_all (c # cs) =
     (case match_jsonLd (c # cs) of
        None \<Rightarrow> jsonLdRegex_exec_all cs
      | Some (g, rest) \<Rightarrow>
          if length rest < Suc (length cs) then g # jsonLdRegex_exec_all rest
          else jsonLdRegex_exec_all cs)"
  by (subst jsonLdRegex_exec_all.simps) (simp split: option.splits)

declare jsonLdRegex_exec_all.simps [simp del]

lemmas jsonLd_eval =
  jsonLdRegex_exec_all_Nil jsonLdRegex_exec_all_Cons match_jsonLd_def type_attr_here_def
  after_gt_def char_defs js_def

text \<open>
  C1. The handler returns a Recipe that breaks both halves of the invariant. On a page
  whose Recipe has the name \<^verbatim>\<open><scr<script>ipt>\<close>, the yield \<^verbatim>\<open><script>\<close> and an image
  given as an array with an object in it, the name that is returned is the denylisted tag
  \<^verbatim>\<open><script>\<close>, which the sanitizer's own removal splices together; the servings are
  the yield as it came, tag included, since \<^verbatim>\<open>sanitizeRecipe\<close> does not reach them; and
  the image is the object, neither null nor a string.
\<close>

theorem returned_recipe_unvalidated:
  "handler_page example_newURL example_JSON_parse markup_page
   = Fresh \<lparr>name = JStr (js ''<script>''), description = JStr [], ingredients = [],
          instructions = [], servings = JStr (js ''<script>''), prepTime = JNull, cookTime = JNull,
          image_field = JObj [(js ''@type'', JStr (js ''ImageObject'')),
                              (js ''url'', JStr (js ''https://example.org/tea.jpg''))]\<rparr>
   \<and> \<not> image_null_or_http_url example_newURL
         (JObj [(js ''@type'', JStr (js ''ImageObject'')),
                (js ''url'', JStr (js ''https://example.org/tea.jpg''))])
   \<and> \<not> markup_free_val (JStr (js ''<script>''))
   \<and> \<not> list_all markup_free_val (string_fields
         \<lparr>name = JStr (js ''<script>''), description = JStr [], ingredients = [],
          instructions = [], servings = JStr (js ''<script>''), prepTime = JNull, cookTime = JNull,
          image_field = JObj [(js ''@type'', JStr (js ''ImageObject'')),
                              (js ''url'', JStr (js ''https://example.org/tea.jpg''))]\<rparr>)"
proof -
  let ?recipe = "JObj [(js ''@type'', JStr (js ''Recipe'')),
            (js ''name'', JStr (js ''<scr<script>ipt>'')),
            (js ''recipeYield'', JStr (js ''<script>'')),
            (js ''image'', JArr [JObj [(js ''@type'', JStr (js ''ImageObject'')),
                                      (js ''url'', JStr (js ''https://example.org/tea.jpg''))]])]"
  have s: "sanitize_string (js ''<scr<script>ipt>'') = js ''<script>''"
    by (simp add: sanitize_eval)
  have m: "match_denylisted_tag (js ''<script>'') \<noteq> None"
    by (simp add: sanitize_eval)
  then have tag: "\<not> markup_free (js ''<script>'')"
    by (simp add: markup_free_def js_def)
  have resp: "recipe_response example_newURL ?recipe
   = Inr \<lparr>name = JStr (sanitize_string (js ''<scr<script>ipt>'')), description = JStr [],
          ingredients = [], instructions = [], servings = JStr (js ''<script>''), prepTime = JNull,
          cookTime = JNull,
          image_field = JObj [(js ''@type'', JStr (js ''ImageObject'')),
                              (js ''url'', JStr (js ''https://example.org/tea.jpg''))]\<rparr>"
    by (simp add: extract_eval js_def)
  have blocks: "jsonLdRegex_exec_all markup_page = [markup_block]"
    by (simp add: markup_page_def markup_block_def jsonLd_eval)
  have parsed: "jsonLd_matches example_JSON_parse markup_page = [?recipe]"
    unfolding jsonLd_matches_def blocks
    by (simp add: example_JSON_parse_def)
  have found: "find_recipe [?recipe] = Inr (Some ?recipe)"
    by (simp add: find_recipe_def js_def)
  have size: "\<not> 2 * 1024 * 1024 < length markup_page"
    by (simp add: markup_page_def markup_block_def js_def)
  have page: "handler_page example_newURL example_JSON_parse markup_page
   = Fresh \<lparr>name = JStr (js ''<script>''), description = JStr [],
          ingredients = [], instructions = [], servings = JStr (js ''<script>''), prepTime = JNull,
          cookTime = JNull,
          image_field = JObj [(js ''@type'', JStr (js ''ImageObject'')),
                              (js ''url'', JStr (js ''https://example.org/tea.jpg''))]\<rparr>"
    using size resp s by (simp add: handler_page_def parsed found)
  show ?thesis
    using tag unfolding page
    by (simp add: image_null_or_http_url_def string_fields_def sanitized_fields_def)
qed

end
